theory Spec2Isabelle
  imports Main
begin

section \<open>Path strings\<close>

text \<open>
  The three widgets (\<open>Aria2Downloader\<close> and \<open>PathUploader\<close> in
  \<open>aria2_downloader.js\<close>, \<open>hf_hub_downloader\<close> in \<open>hf_hub_downloader.js\<close>) each
  carry their own copy of the destination field. A JavaScript string is modelled as a
  \<open>string\<close>: one \<open>char\<close> per code unit, so \<open>length\<close> is the \<open>.length\<close> of the source;
  the texts covered are those of code units below U+0100. The handlers tell apart only
  the slash, the backslash and white space.
\<close>

datatype copy = Aria2 | HfHub | PathUploader

text \<open>\<open>s.replace(/\\/g, "/")\<close>: every backslash becomes a forward slash.\<close>

definition replace_backslashes :: "string \<Rightarrow> string" where
  "replace_backslashes s = map (\<lambda>c. if c = CHR 0x5C then CHR ''/'' else c) s"

text \<open>
  \<open>s.replace(/\/{2,}/g, "/")\<close>: every maximal run of two or more slashes becomes one
  slash. A slash that is followed by another slash is dropped, the last one of a run stays.
\<close>

fun collapse_slashes :: "string \<Rightarrow> string" where
  "collapse_slashes (a # b # cs) =
     (if a = CHR ''/'' \<and> b = CHR ''/'' then collapse_slashes (b # cs)
      else a # collapse_slashes (b # cs))"
| "collapse_slashes cs = cs"

text \<open>
  The downloader copies normalise inline, with both replacements chained:
  \<open>raw.replace(/\\/g, "/").replace(/\/{2,}/g, "/")\<close>.
\<close>

definition normalize_inline :: "string \<Rightarrow> string" where
  "normalize_inline s = collapse_slashes (replace_backslashes s)"

text \<open>
  The uploader copy has \<open>const normalizePath = (p) => (p || "").replace(/\\/g, "/")\<close>:
  backslashes only. (\<open>p || ""\<close> is \<open>p\<close> for every string.)
\<close>

definition normalizePath :: "string \<Rightarrow> string" where
  "normalizePath p = replace_backslashes p"

definition normalize :: "copy \<Rightarrow> string \<Rightarrow> string" where
  "normalize c s = (if c = PathUploader then normalizePath s else normalize_inline s)"

text \<open>Whether a string holds two slashes in a row.\<close>

fun has_double_slash :: "string \<Rightarrow> bool" where
  "has_double_slash (a # b # cs) = ((a = CHR ''/'' \<and> b = CHR ''/'') \<or> has_double_slash (b # cs))"
| "has_double_slash cs = False"

text \<open>
  \<open>joinPath\<close> of the uploader copy:
  \<^verbatim>\<open>
  function joinPath(base, seg) {
    base = normalizePath(base || "");
    seg  = normalizePath(seg || "");
    if (!base) return seg;
    if (!seg) return base;
    const trailing = base.endsWith("/");
    return trailing ? base + seg : base + "/" + seg;
  }
  \<close>
\<close>

definition joinPath :: "string \<Rightarrow> string \<Rightarrow> string" where
  "joinPath base seg =
     (let base' = normalizePath base; seg' = normalizePath seg in
      if base' = [] then seg'
      else if seg' = [] then base'
      else if last base' = CHR ''/'' then base' @ seg'
      else base' @ ''/'' @ seg')"

text \<open>
  \<open>String.prototype.trim\<close>: white space and line terminators are stripped at both ends
  (the ones below U+0100: TAB, LF, VT, FF, CR, SP, NBSP).
\<close>

definition is_ws :: "char \<Rightarrow> bool" where
  "is_ws c = (c \<in> {CHR 0x09, CHR 0x0A, CHR 0x0B, CHR 0x0C, CHR 0x0D, CHR 0x20, CHR 0xA0})"

definition trim :: "string \<Rightarrow> string" where
  "trim s = rev (dropWhile is_ws (rev (dropWhile is_ws s)))"

section \<open>The directory-listing service\<close>

text \<open>
  \<open>GET /az/listdir?path=...\<close> answers with a JSON object \<open>{ok, root, folders: [{name}]}\<close>.
  A request settles in one of three ways: \<open>api.fetchApi\<close> rejects, \<open>resp.json()\<close>
  rejects, or a value \<open>data\<close> is parsed. Of \<open>data\<close> the field reads the truthiness of
  \<open>data.ok\<close>, the string \<open>data.root\<close> (absent: \<open>None\<close>) and the array \<open>data.folders\<close>
  of named folders (\<open>None\<close>: absent or not an array; a parsed value that is no object at
  all has \<open>ok = False\<close>). The HTTP status comes with the response; no copy of the field
  reads it.
\<close>

record listing =
  ok :: bool
  root :: "string option"
  folders :: "string list option"

datatype body = Unparsable | Data listing

datatype response = NetworkError | Http nat body

datatype js_exception = FetchRejected | JsonSyntaxError

text \<open>\<open>const resp = await api.fetchApi(...); const data = await resp.json();\<close>\<close>

fun listdir_json :: "response \<Rightarrow> js_exception + listing" where
  "listdir_json NetworkError = Inl FetchRejected"
| "listdir_json (Http status Unparsable) = Inl JsonSyntaxError"
| "listdir_json (Http status (Data d)) = Inr d"

section \<open>The state of a destination field\<close>

record entry =
  name :: string
  path :: string

datatype key = ArrowDown | ArrowUp | Enter | Escape | OtherKey

text \<open>
  A request on its way, with what waits for it: \<open>fetchChildren\<close> called by a timer,
  \<open>fetchChildren\<close> awaited by the uploader's arrow-key handler, the root query of the
  focus handler, the root query made when the node is created.
\<close>

datatype request = ChildrenReq string | ArrowReq string key | FocusRootReq | PrefillRootReq

text \<open>The \<open>path\<close> argument of the request's URL; the root queries have none.\<close>

fun request_path :: "request \<Rightarrow> string option" where
  "request_path (ChildrenReq val) = Some val"
| "request_path (ArrowReq val k) = Some val"
| "request_path FocusRootReq = None"
| "request_path PrefillRootReq = None"

text \<open>
  \<open>dest_value\<close> is \<open>destInput.value\<close>, \<open>selectionStart\<close> its caret, \<open>dest_dir\<close> is
  \<open>this.properties.dest_dir\<close>; \<open>items\<close>, \<open>active\<close> and \<open>debounceTimer\<close> are the closure
  variables of that name; \<open>display_block\<close> is \<open>dropdown.style.display === "block"\<close>,
  \<open>rows\<close> the items the rows of \<open>dropdown.children\<close> were built from, \<open>focused\<close> is
  \<open>document.activeElement === destInput\<close>. \<open>timers\<close> are the armed timeouts on
  \<open>fetchChildren\<close> (identifier, delay), \<open>next_timer\<close> the identifier \<open>setTimeout\<close>
  returns next (identifiers are positive, so a stored one is truthy), \<open>inflight\<close> the
  requests that have not settled.
\<close>

record field =
  dest_value :: string
  selectionStart :: int
  dest_dir :: string
  items :: "entry list"
  active :: int
  debounceTimer :: "nat option"
  display_block :: bool
  rows :: "entry list"
  focused :: bool
  timers :: "(nat \<times> nat) list"
  next_timer :: nat
  inflight :: "request list"

text \<open>
  \<open>destInput.value = v\<close>: \<open>destInput\<close> is an \<open><input type="text">\<close>, which strips line
  feeds and carriage returns from a value assigned to it and puts the caret at the end of
  the text.
\<close>

definition strip_newlines :: "string \<Rightarrow> string" where
  "strip_newlines v = filter (\<lambda>c. c \<noteq> CHR 0x0A \<and> c \<noteq> CHR 0x0D) v"

definition set_value :: "string \<Rightarrow> field \<Rightarrow> field" where
  "set_value v s =
     s\<lparr>dest_value := strip_newlines v, selectionStart := int (length (strip_newlines v))\<rparr>"

text \<open>
  The state when \<open>onNodeCreated\<close> returns, for a persisted \<open>dest_dir\<close> of \<open>p\<close> (the
  empty string when there is none): the root query of the prefill is on its way. The
  uploader normalises the persisted value. The text is set by \<open>destInput.value = ...\<close>.
  (The uploader also dispatches one \<open>input\<close>
  event 50 ms later when the field is not empty; in a run that is an \<open>Input\<close> event with
  the text the field holds.)
\<close>

definition init :: "copy \<Rightarrow> string \<Rightarrow> field" where
  "init c p =
     (let v = (if c = PathUploader then normalizePath p else p) in
      \<lparr>dest_value = strip_newlines v, selectionStart = int (length (strip_newlines v)),
       dest_dir = v, items = [], active = -1,
       debounceTimer = None, display_block = False, rows = [], focused = False,
       timers = [], next_timer = 1, inflight = [PrefillRootReq]\<rparr>)"

section \<open>Timers\<close>

text \<open>\<open>if (debounceTimer) clearTimeout(debounceTimer);\<close> The variable keeps its value.\<close>

definition clear_debounce :: "field \<Rightarrow> field" where
  "clear_debounce s =
     (case debounceTimer s of
        None \<Rightarrow> s
      | Some t \<Rightarrow> s\<lparr>timers := filter (\<lambda>td. fst td \<noteq> t) (timers s)\<rparr>)"

text \<open>\<open>debounceTimer = setTimeout(fetchChildren, delay);\<close>\<close>

definition arm :: "nat \<Rightarrow> field \<Rightarrow> field" where
  "arm delay s =
     s\<lparr>timers := timers s @ [(next_timer s, delay)],
       debounceTimer := Some (next_timer s),
       next_timer := Suc (next_timer s)\<rparr>"

definition debounce_delay :: "copy \<Rightarrow> nat" where
  "debounce_delay c = (if c = PathUploader then 200 else 180)"

definition scheduleFetch :: "copy \<Rightarrow> field \<Rightarrow> field" where
  "scheduleFetch c s = arm (debounce_delay c) (clear_debounce s)"

section \<open>Rendering and lookups\<close>

text \<open>
  \<open>renderDropdown\<close>: with no items the overlay is emptied and hidden and \<open>active\<close> reset;
  otherwise one row per item is built and the overlay shown.
\<close>

definition renderDropdown :: "field \<Rightarrow> field" where
  "renderDropdown s =
     (if items s = [] then s\<lparr>rows := [], display_block := False, active := -1\<rparr>
      else s\<lparr>rows := items s, display_block := True\<rparr>)"

text \<open>\<open>data.root || val\<close>\<close>

definition root_or :: "listing \<Rightarrow> string \<Rightarrow> string" where
  "root_or d val = (case root d of None \<Rightarrow> val | Some r \<Rightarrow> if r = [] then val else r)"

text \<open>
  The path of a suggested folder: the downloaders build
  \<open>((data.root || val) + "/" + f.name)\<close> and normalise it inline, the uploader calls
  \<open>joinPath(data.root || val, f.name)\<close>.
\<close>

definition child_path :: "copy \<Rightarrow> string \<Rightarrow> string \<Rightarrow> string" where
  "child_path c base nm =
     (if c = PathUploader then joinPath base nm else normalize_inline (base @ ''/'' @ nm))"

text \<open>
  The \<open>try\<close> block of \<open>fetchChildren\<close> with its \<open>catch\<close>: the new value of \<open>items\<close>.
  \<^verbatim>\<open>
  try {
    const resp = await api.fetchApi("/az/listdir?path=" + encodeURIComponent(val));
    const data = await resp.json();
    if (data && data.ok && Array.isArray(data.folders)) {
      items = data.folders.map(function (f) {
        return { name: f.name, path: (...) };
      });
    } else { items = []; }
  } catch (e) { items = []; }
  \<close>
\<close>

definition fetched_items :: "copy \<Rightarrow> string \<Rightarrow> response \<Rightarrow> entry list" where
  "fetched_items c val r =
     (case listdir_json r of
        Inl e \<Rightarrow> []
      | Inr d \<Rightarrow>
          (if ok d then
             (case folders d of
                None \<Rightarrow> []
              | Some fs \<Rightarrow> map (\<lambda>f. \<lparr>name = f, path = child_path c (root_or d val) f\<rparr>) fs)
           else []))"

text \<open>
  \<open>fetchChildren\<close> up to its first \<open>await\<close>: an empty (or blank) input clears the list
  without a request, otherwise the request for the normalised text goes out.
\<close>

definition fetchChildren :: "copy \<Rightarrow> (string \<Rightarrow> request) \<Rightarrow> field \<Rightarrow> field" where
  "fetchChildren c waiting s =
     (let raw = trim (dest_value s) in
      if raw = [] then renderDropdown (s\<lparr>items := []\<rparr>)
      else s\<lparr>inflight := inflight s @ [waiting (normalize c raw)]\<rparr>)"

text \<open>
  \<open>fetchChildren\<close> from the moment its request settles:
  \<^verbatim>\<open>
  active = items.length ? 0 : -1;
  if (document.activeElement === destInput) { renderDropdown(); }
  else { dropdown.style.display = "none"; }
  \<close>
\<close>

definition fetchChildren_settled :: "copy \<Rightarrow> string \<Rightarrow> response \<Rightarrow> field \<Rightarrow> field" where
  "fetchChildren_settled c val r s =
     (let its = fetched_items c val r;
          s1 = s\<lparr>items := its, active := (if its = [] then -1 else 0)\<rparr> in
      if focused s1 then renderDropdown s1 else s1\<lparr>display_block := False\<rparr>)"

section \<open>Event handlers\<close>

text \<open>
  \<open>destInput.setSelectionRange(pos, pos)\<close>: a position beyond the text is set to its
  length.
\<close>

definition setSelectionRange :: "int \<Rightarrow> field \<Rightarrow> field" where
  "setSelectionRange pos s = s\<lparr>selectionStart := min pos (int (length (dest_value s)))\<rparr>"

text \<open>
  The \<open>input\<close> handler, after an edit that left the text \<open>raw\<close> and the caret at \<open>k\<close>:
  \<^verbatim>\<open>
  const raw = destInput.value;
  const prevStart = destInput.selectionStart || 0;
  const normalized = raw.replace(/\\/g, "/").replace(/\/{2,}/g, "/");
  if (normalized !== raw) {
    const delta = normalized.length - raw.length;
    destInput.value = normalized;
    const pos = Math.max(0, prevStart + delta);
    destInput.setSelectionRange(pos, pos);
  }
  this.properties.dest_dir = destInput.value;
  placeDropdown();
  scheduleFetch();
  \<close>
  The uploader's handler is the same with \<open>normalizePath\<close>. Here \<open>raw\<close> is the text of
  the element itself, which holds no line break: the assignment stores \<open>normalized\<close> as
  it is, and the caret it leaves at the end is set by \<open>setSelectionRange\<close> right after.
\<close>

definition on_input :: "copy \<Rightarrow> string \<Rightarrow> nat \<Rightarrow> field \<Rightarrow> field" where
  "on_input c raw k s =
     (let s0 = s\<lparr>dest_value := raw, selectionStart := int k\<rparr>;
          prevStart = int k;
          normalized = normalize c raw;
          s1 = (if normalized \<noteq> raw then
                  (let delta = int (length normalized) - int (length raw);
                       pos = max 0 (prevStart + delta) in
                   setSelectionRange pos (s0\<lparr>dest_value := normalized\<rparr>))
                else s0) in
      scheduleFetch c (s1\<lparr>dest_dir := dest_value s1\<rparr>))"

text \<open>
  The root a root query reports: \<open>data?.ok && data.root\<close>, then
  \<open>(data.root || "").replace(/\\/g, "/")\<close>; nothing when the query failed.
\<close>

definition listed_root :: "response \<Rightarrow> string option" where
  "listed_root r =
     (case listdir_json r of
        Inl e \<Rightarrow> None
      | Inr d \<Rightarrow>
          (if ok d then
             (case root d of
                None \<Rightarrow> None
              | Some x \<Rightarrow> if x = [] then None else Some (replace_backslashes x))
           else None))"

text \<open>
  The \<open>focus\<close> handler up to its \<open>await\<close>: a blank field asks for the root (no \<open>path\<close>
  argument), any other schedules the lookup.
\<close>

definition on_focus :: "copy \<Rightarrow> field \<Rightarrow> field" where
  "on_focus c s =
     (let s1 = s\<lparr>focused := True\<rparr> in
      if trim (dest_value s1) = [] then s1\<lparr>inflight := inflight s1 @ [FocusRootReq]\<rparr>
      else scheduleFetch c s1)"

text \<open>
  The \<open>focus\<close> handler once the root query settled:
  \<^verbatim>\<open>
  if (data?.ok && data.root) {
    const root = (data.root || "").replace(/\\/g, "/");
    if (!this.properties.dest_dir) {
      destInput.value = root;
      this.properties.dest_dir = root;
      if (debounceTimer) clearTimeout(debounceTimer);
      debounceTimer = setTimeout(fetchChildren, 50);
      return;
    }
  }
  ...
  scheduleFetch();
  \<close>
\<close>

definition focus_settled :: "copy \<Rightarrow> response \<Rightarrow> field \<Rightarrow> field" where
  "focus_settled c r s =
     (case listed_root r of
        None \<Rightarrow> scheduleFetch c s
      | Some rt \<Rightarrow>
          if dest_dir s = [] then arm 50 (clear_debounce ((set_value rt s)\<lparr>dest_dir := rt\<rparr>))
          else scheduleFetch c s)"

text \<open>The prefill at creation does the same, and nothing when it does not seed.\<close>

definition prefill_settled :: "copy \<Rightarrow> response \<Rightarrow> field \<Rightarrow> field" where
  "prefill_settled c r s =
     (case listed_root r of
        None \<Rightarrow> s
      | Some rt \<Rightarrow>
          if dest_dir s = [] then arm 50 (clear_debounce ((set_value rt s)\<lparr>dest_dir := rt\<rparr>))
          else s)"

text \<open>
  Choosing an entry (\<open>Enter\<close>, or the pointer on a row):
  \<^verbatim>\<open>
  destInput.value = chosen;
  this.properties.dest_dir = chosen;
  items = []; active = -1;
  dropdown.style.display = "none";
  scheduleFetch();
  \<close>
  with \<open>chosen\<close> the normalised path of the entry.
\<close>

definition choose_item :: "copy \<Rightarrow> entry \<Rightarrow> field \<Rightarrow> field" where
  "choose_item c it s =
     (let chosen = normalize c (path it) in
      scheduleFetch c
        ((set_value chosen s)\<lparr>dest_dir := chosen, items := [], active := -1,
          display_block := False\<rparr>))"

text \<open>
  JavaScript's \<open>%\<close> on integers: the sign of the dividend. The handlers divide by
  \<open>items.length\<close> only after they have found it non-zero.
\<close>

definition js_rem :: "int \<Rightarrow> int \<Rightarrow> int" where
  "js_rem a n = sgn a * (\<bar>a\<bar> mod \<bar>n\<bar>)"

text \<open>
  The key branches of the \<open>keydown\<close> handlers. In the downloaders \<open>Enter\<close> needs
  \<open>active >= 0\<close>; the uploader takes \<open>items[(active >= 0) ? active : 0]\<close>. An index
  beyond the list reads \<open>undefined\<close>, and \<open>it.path\<close> then throws before anything is
  written.
\<close>

fun key_branches :: "copy \<Rightarrow> key \<Rightarrow> field \<Rightarrow> field" where
  "key_branches c ArrowDown s =
     renderDropdown (s\<lparr>active := js_rem (active s + 1) (int (length (items s)))\<rparr>)"
| "key_branches c ArrowUp s =
     renderDropdown
       (s\<lparr>active := js_rem (active s - 1 + int (length (items s))) (int (length (items s)))\<rparr>)"
| "key_branches c Enter s =
     (if c = PathUploader then
        (if items s \<noteq> [] then
           (let i = (if active s \<ge> 0 then nat (active s) else 0) in
            if i < length (items s) then choose_item c (items s ! i) s else s)
         else s)
      else if active s \<ge> 0 then
        (if nat (active s) < length (items s) then choose_item c (items s ! nat (active s)) s else s)
      else s)"
| "key_branches c Escape s = s\<lparr>display_block := False, items := [], active := -1\<rparr>"
| "key_branches c OtherKey s = s"

text \<open>
  The uploader's handler past its arrow-key lookup:
  \<open>if (dropdown.style.display !== "block" || !items.length) { if (!items.length) return; }\<close>
\<close>

definition keydown_rest :: "copy \<Rightarrow> key \<Rightarrow> field \<Rightarrow> field" where
  "keydown_rest c k s = (if items s = [] then s else key_branches c k s)"

text \<open>
  The \<open>keydown\<close> handlers. The downloaders return at once unless the overlay is shown
  with items. The uploader, on an arrow key with the overlay hidden, first clears the
  timer and awaits \<open>fetchChildren\<close>; the handler goes on when that has settled.
\<close>

definition keydown :: "copy \<Rightarrow> key \<Rightarrow> field \<Rightarrow> field" where
  "keydown c k s =
     (if c = PathUploader then
        (if (k = ArrowDown \<or> k = ArrowUp) \<and> \<not> display_block s then
           (let s1 = fetchChildren c (\<lambda>val. ArrowReq val k) (clear_debounce s) in
            if trim (dest_value s) = [] then keydown_rest c k s1 else s1)
         else keydown_rest c k s)
      else if \<not> display_block s \<or> items s = [] then s
      else key_branches c k s)"

text \<open>
  \<open>blur\<close>, and the document's \<open>pointerdown\<close> outside the field:
  \<^verbatim>\<open>
  if (debounceTimer) { clearTimeout(debounceTimer); debounceTimer = null; }
  items = []; active = -1;
  dropdown.style.display = "none";
  \<close>
\<close>

definition dismiss :: "field \<Rightarrow> field" where
  "dismiss s =
     (clear_debounce s)\<lparr>debounceTimer := None, items := [], active := -1, display_block := False\<rparr>"

definition on_blur :: "field \<Rightarrow> field" where
  "on_blur s = dismiss (s\<lparr>focused := False\<rparr>)"

text \<open>A timeout elapses: an armed timer leaves the table and runs \<open>fetchChildren\<close>.\<close>

definition on_timeout :: "copy \<Rightarrow> nat \<Rightarrow> field \<Rightarrow> field" where
  "on_timeout c t s =
     (if t \<in> fst ` set (timers s) then
        fetchChildren c ChildrenReq (s\<lparr>timers := filter (\<lambda>td. fst td \<noteq> t) (timers s)\<rparr>)
      else s)"

text \<open>The request at position \<open>i\<close> of \<open>inflight\<close> settles with \<open>r\<close>.\<close>

definition on_settle :: "copy \<Rightarrow> nat \<Rightarrow> response \<Rightarrow> field \<Rightarrow> field" where
  "on_settle c i r s =
     (if i < length (inflight s) then
        (let s1 = s\<lparr>inflight := take i (inflight s) @ drop (Suc i) (inflight s)\<rparr> in
         case inflight s ! i of
           ChildrenReq val \<Rightarrow> fetchChildren_settled c val r s1
         | ArrowReq val k \<Rightarrow> keydown_rest c k (fetchChildren_settled c val r s1)
         | FocusRootReq \<Rightarrow> focus_settled c r s1
         | PrefillRootReq \<Rightarrow> prefill_settled c r s1)
      else s)"

text \<open>
  The pointer on row \<open>idx\<close> of a shown overlay: \<open>mousedown\<close> chooses the row's item,
  \<open>mouseenter\<close> highlights it (\<open>active = idx; renderDropdown();\<close>). Rows of a hidden
  overlay get no pointer events. (The uploader chooses on \<open>pointerdown\<close> and cancels
  the event, so that no \<open>mousedown\<close> follows.)
\<close>

definition row_mousedown :: "copy \<Rightarrow> nat \<Rightarrow> field \<Rightarrow> field" where
  "row_mousedown c idx s =
     (if display_block s \<and> idx < length (rows s) then choose_item c (rows s ! idx) s else s)"

definition row_mouseenter :: "nat \<Rightarrow> field \<Rightarrow> field" where
  "row_mouseenter idx s =
     (if display_block s \<and> idx < length (rows s) then renderDropdown (s\<lparr>active := int idx\<rparr>)
      else s)"

section \<open>Runs\<close>

text \<open>
  What can happen to a field: the user edits the text (leaving it as given, the caret at
  the given position), the field gains or loses the focus, a key goes down, the pointer
  goes down outside the field, the pointer acts on a row, an armed timeout elapses, a
  request settles. An event that cannot happen in a state (a timeout that is not armed, a
  request or a row that is not there) leaves the state as it is. Handlers run to their
  next \<open>await\<close> without interruption, so a run is a list of events.
\<close>

datatype event =
    Input string nat
  | Focus
  | Blur
  | KeyDown key
  | PointerDownOutside
  | RowMouseDown nat
  | RowMouseEnter nat
  | Timeout nat
  | Settle nat response

fun step :: "copy \<Rightarrow> field \<Rightarrow> event \<Rightarrow> field" where
  "step c s (Input raw k) = on_input c raw k s"
| "step c s Focus = on_focus c s"
| "step c s Blur = on_blur s"
| "step c s (KeyDown k) = keydown c k s"
| "step c s PointerDownOutside = dismiss s"
| "step c s (RowMouseDown idx) = row_mousedown c idx s"
| "step c s (RowMouseEnter idx) = row_mouseenter idx s"
| "step c s (Timeout t) = on_timeout c t s"
| "step c s (Settle i r) = on_settle c i r s"

definition run :: "copy \<Rightarrow> string \<Rightarrow> event list \<Rightarrow> field" where
  "run c p evs = foldl (step c) (init c p) evs"

inductive reachable :: "copy \<Rightarrow> field \<Rightarrow> bool" for c :: copy where
  reachable_init: "reachable c (init c p)"
| reachable_step: "reachable c s \<Longrightarrow> reachable c (step c s e)"

section \<open>Invariants\<close>

text \<open>
  The highlighted index fits the list: \<open>-1\<close> with an empty list, an index into it
  otherwise.
\<close>

definition active_ok :: "field \<Rightarrow> bool" where
  "active_ok s =
     (if items s = [] then active s = -1
      else 0 \<le> active s \<and> active s < int (length (items s)))"

text \<open>A shown overlay shows the rows of the current items.\<close>

definition rows_ok :: "field \<Rightarrow> bool" where
  "rows_ok s = (display_block s \<longrightarrow> rows s = items s)"

definition view_ok :: "field \<Rightarrow> bool" where
  "view_ok s = (active_ok s \<and> rows_ok s)"

text \<open>
  At most one timeout is armed, and \<open>debounceTimer\<close> holds its identifier; identifiers
  in use are below the next one.
\<close>

definition timers_ok :: "field \<Rightarrow> bool" where
  "timers_ok s =
     (length (timers s) \<le> 1 \<and>
      (\<forall>td \<in> set (timers s). debounceTimer s = Some (fst td)) \<and>
      (\<forall>t \<in> set_option (debounceTimer s). t < next_timer s))"

text \<open>A listing that succeeds with the folders \<open>fs\<close> under the root \<open>r\<close>.\<close>

definition listed :: "string option \<Rightarrow> string list \<Rightarrow> response" where
  "listed r fs = Http 200 (Data \<lparr>ok = True, root = r, folders = Some fs\<rparr>)"

section \<open>Sample runs\<close>

text \<open>
  A new field with nothing persisted gets the focus, the user types \<open>a\<close>, the debounce
  elapses and the lookup for \<open>a\<close> goes out (third in \<open>inflight\<close>, after the two root
  queries).
\<close>

definition typed :: "copy \<Rightarrow> field" where
  "typed c = run c [] [Focus, Input ''a'' 1, Timeout 1]"

text \<open>The lookup comes back with two folders while the field has the focus.\<close>

definition shown :: "copy \<Rightarrow> field" where
  "shown c = step c (typed c) (Settle 2 (listed None [''x'', ''y'']))"

text \<open>The path of the folder \<open>me\<close> under \<open>Users\<close> on drive \<open>C:\<close>, typed with backslashes.\<close>

definition users_me :: string where
  "users_me = ''C:'' @ [CHR 0x5C] @ ''Users'' @ [CHR 0x5C] @ ''me''"


text \<open>
  The uploader's field with the text \<open>a\<close> and the overlay hidden, when an arrow key goes
  down: its lookup is third in \<open>inflight\<close>.
\<close>

definition arrow_pending :: "key \<Rightarrow> field" where
  "arrow_pending k = run PathUploader [] [Focus, Input ''a'' 1, KeyDown k]"

text \<open>
  A lookup that fails: the request is rejected, the body is not JSON, or the parsed value
  has no truthy \<open>ok\<close> or no array \<open>folders\<close>.
\<close>

fun failed_lookup :: "response \<Rightarrow> bool" where
  "failed_lookup NetworkError = True"
| "failed_lookup (Http status Unparsable) = True"
| "failed_lookup (Http status (Data d)) = (\<not> ok d \<or> folders d = None)"

section \<open>Normalisation: shape of the result, idempotence\<close>

lemma replace_backslashes_no_backslash: "CHR 0x5C \<notin> set (replace_backslashes s)"
  by (auto simp: replace_backslashes_def)

lemma replace_backslashes_idem:
  "replace_backslashes (replace_backslashes s) = replace_backslashes s"
  by (simp add: replace_backslashes_def)

lemma replace_backslashes_length: "length (replace_backslashes s) = length s"
  by (simp add: replace_backslashes_def)

lemma set_collapse_slashes: "set (collapse_slashes s) \<subseteq> set s"
  by (induction s rule: collapse_slashes.induct) auto

lemma collapse_slashes_length: "length (collapse_slashes s) \<le> length s"
  by (induction s rule: collapse_slashes.induct) auto

lemma collapse_slashes_hd:
  "collapse_slashes (a # cs) = a # tl (collapse_slashes (a # cs))"
  by (induction "a # cs" arbitrary: a cs rule: collapse_slashes.induct) auto

lemma collapse_slashes_no_double: "\<not> has_double_slash (collapse_slashes s)"
proof (induction s rule: collapse_slashes.induct)
  case (1 a b cs)
  obtain r where r: "collapse_slashes (b # cs) = b # r"
    using collapse_slashes_hd [of b cs] by blast
  with 1 show ?case by auto
qed simp_all

lemma collapse_slashes_id: "\<not> has_double_slash s \<Longrightarrow> collapse_slashes s = s"
  by (induction s rule: collapse_slashes.induct) auto

lemma replace_backslashes_id: "CHR 0x5C \<notin> set s \<Longrightarrow> replace_backslashes s = s"
  by (induction s) (auto simp: replace_backslashes_def)

lemma normalize_inline_no_backslash: "CHR 0x5C \<notin> set (normalize_inline s)"
  using set_collapse_slashes [of "replace_backslashes s"] replace_backslashes_no_backslash [of s]
  by (auto simp: normalize_inline_def)

lemma normalize_inline_idem: "normalize_inline (normalize_inline s) = normalize_inline s"
proof -
  have "replace_backslashes (normalize_inline s) = normalize_inline s"
    by (rule replace_backslashes_id) (rule normalize_inline_no_backslash)
  moreover have "\<not> has_double_slash (normalize_inline s)"
    by (simp add: normalize_inline_def collapse_slashes_no_double)
  ultimately show ?thesis
    using collapse_slashes_id [of "normalize_inline s"]
    by (simp add: normalize_inline_def [of "normalize_inline s"])
qed

lemma normalize_length: "length (normalize c s) \<le> length s"
  using collapse_slashes_length [of "replace_backslashes s"]
  by (simp add: normalize_def normalizePath_def normalize_inline_def replace_backslashes_length)

section \<open>The highlighted index\<close>

lemma js_rem_range: "0 \<le> a \<Longrightarrow> 0 < n \<Longrightarrow> 0 \<le> js_rem a n \<and> js_rem a n < n"
  by (cases "a = 0") (simp_all add: js_rem_def)

lemma view_clear_debounce: "view_ok (clear_debounce s) = view_ok s"
  by (simp add: view_ok_def active_ok_def rows_ok_def clear_debounce_def split: option.splits)

lemma view_arm: "view_ok (arm d s) = view_ok s"
  by (simp add: view_ok_def active_ok_def rows_ok_def arm_def)

lemma view_scheduleFetch: "view_ok (scheduleFetch c s) = view_ok s"
  by (simp add: scheduleFetch_def view_arm view_clear_debounce)

lemma view_renderDropdown: "active_ok s \<Longrightarrow> view_ok (renderDropdown s)"
  by (simp add: view_ok_def active_ok_def rows_ok_def renderDropdown_def)

lemma view_renderDropdown_empty: "view_ok (renderDropdown (s\<lparr>items := []\<rparr>))"
  by (simp add: view_ok_def active_ok_def rows_ok_def renderDropdown_def)

lemma view_fetchChildren: "view_ok s \<Longrightarrow> view_ok (fetchChildren c w s)"
  by (simp add: fetchChildren_def Let_def view_renderDropdown_empty) (simp add: view_ok_def active_ok_def rows_ok_def)

lemma view_fetchChildren_settled: "view_ok (fetchChildren_settled c val r s)"
  by (simp add: fetchChildren_settled_def Let_def view_renderDropdown active_ok_def)
    (simp add: view_ok_def active_ok_def rows_ok_def)

lemma view_choose_item: "view_ok (choose_item c it s)"
  by (simp add: choose_item_def Let_def view_scheduleFetch) (simp add: view_ok_def active_ok_def rows_ok_def)

lemma view_key_branches: "view_ok s \<Longrightarrow> items s \<noteq> [] \<Longrightarrow> view_ok (key_branches c k s)"
proof (cases k)
  case ArrowDown
  assume a: "view_ok s" "items s \<noteq> []"
  then have "active_ok (s\<lparr>active := js_rem (active s + 1) (int (length (items s)))\<rparr>)"
    using js_rem_range [of "active s + 1" "int (length (items s))"]
    by (simp add: view_ok_def active_ok_def rows_ok_def)
  then show ?thesis using ArrowDown by (simp add: view_renderDropdown)
next
  case ArrowUp
  assume a: "view_ok s" "items s \<noteq> []"
  then have "active_ok (s\<lparr>active := js_rem (active s - 1 + int (length (items s))) (int (length (items s)))\<rparr>)"
    using js_rem_range [of "active s - 1 + int (length (items s))" "int (length (items s))"]
    by (simp add: view_ok_def active_ok_def rows_ok_def)
  then show ?thesis using ArrowUp by (simp add: view_renderDropdown)
next
  case Enter
  assume "view_ok s" "items s \<noteq> []"
  then show ?thesis using Enter by (simp add: Let_def view_choose_item)
next
  case Escape
  then show ?thesis by (simp add: view_ok_def active_ok_def rows_ok_def)
next
  case OtherKey
  assume "view_ok s"
  then show ?thesis using OtherKey by simp
qed

lemma view_keydown_rest: "view_ok s \<Longrightarrow> view_ok (keydown_rest c k s)"
  by (simp add: keydown_rest_def view_key_branches)

lemma view_keydown: "view_ok s \<Longrightarrow> view_ok (keydown c k s)"
  by (simp add: keydown_def Let_def view_keydown_rest view_key_branches view_fetchChildren
      view_clear_debounce)

lemma view_dismiss: "view_ok (dismiss s)"
  by (simp add: dismiss_def view_ok_def active_ok_def rows_ok_def)

lemma view_on_input: "view_ok s \<Longrightarrow> view_ok (on_input c raw k s)"
  by (simp add: on_input_def Let_def view_scheduleFetch setSelectionRange_def)
    (simp add: view_ok_def active_ok_def rows_ok_def)

lemma view_on_focus: "view_ok s \<Longrightarrow> view_ok (on_focus c s)"
  by (simp add: on_focus_def Let_def view_scheduleFetch) (simp add: view_ok_def active_ok_def rows_ok_def)

lemma view_seed:
  "view_ok s \<Longrightarrow> view_ok (arm d (clear_debounce ((set_value rt s)\<lparr>dest_dir := rt\<rparr>)))"
  by (simp add: view_arm view_clear_debounce)
    (simp add: view_ok_def active_ok_def rows_ok_def set_value_def)

lemma view_focus_settled: "view_ok s \<Longrightarrow> view_ok (focus_settled c r s)"
  by (simp add: focus_settled_def view_scheduleFetch view_seed split: option.splits)

lemma view_prefill_settled: "view_ok s \<Longrightarrow> view_ok (prefill_settled c r s)"
  by (simp add: prefill_settled_def view_seed split: option.splits)

lemma view_on_timeout: "view_ok s \<Longrightarrow> view_ok (on_timeout c t s)"
proof -
  assume a: "view_ok s"
  then have "view_ok (s\<lparr>timers := filter (\<lambda>td. fst td \<noteq> t) (timers s)\<rparr>)"
    by (simp add: view_ok_def active_ok_def rows_ok_def)
  with a show ?thesis by (simp add: on_timeout_def view_fetchChildren)
qed

lemma view_on_settle: "view_ok s \<Longrightarrow> view_ok (on_settle c i r s)"
proof -
  assume a: "view_ok s"
  then have "view_ok (s\<lparr>inflight := take i (inflight s) @ drop (Suc i) (inflight s)\<rparr>)"
    by (simp add: view_ok_def active_ok_def rows_ok_def)
  with a show ?thesis
    by (simp add: on_settle_def Let_def view_fetchChildren_settled view_keydown_rest
        view_focus_settled view_prefill_settled split: request.splits)
qed

lemma view_row_mousedown: "view_ok s \<Longrightarrow> view_ok (row_mousedown c idx s)"
  by (simp add: row_mousedown_def view_choose_item)

lemma view_row_mouseenter: "view_ok s \<Longrightarrow> view_ok (row_mouseenter idx s)"
proof -
  assume a: "view_ok s"
  have "active_ok (s\<lparr>active := int idx\<rparr>)" if "display_block s" "idx < length (rows s)"
    using a that by (auto simp: view_ok_def active_ok_def rows_ok_def)
  with a show ?thesis by (simp add: row_mouseenter_def view_renderDropdown)
qed

lemma view_step: "view_ok s \<Longrightarrow> view_ok (step c s e)"
  by (cases e)
    (simp_all add: view_on_input view_on_focus on_blur_def view_dismiss view_keydown
      view_row_mousedown view_row_mouseenter view_on_timeout view_on_settle)

lemma view_init: "view_ok (init c p)"
  by (simp add: init_def Let_def view_ok_def active_ok_def rows_ok_def)

lemma reachable_view: "reachable c s \<Longrightarrow> view_ok s"
  by (induction rule: reachable.induct) (simp_all add: view_init view_step)

lemma reachable_foldl: "reachable c s \<Longrightarrow> reachable c (foldl (step c) s evs)"
  by (induction evs arbitrary: s) (simp_all add: reachable_step)

lemma reachable_run: "reachable c (run c p evs)"
  by (simp add: run_def reachable_foldl reachable_init)

text \<open>
  Claim C1. In every state a field can reach, \<open>active\<close> is \<open>-1\<close> exactly when \<open>items\<close>
  is empty and is otherwise an index into \<open>items\<close>; whatever event comes next (a settled
  lookup, an arrow key, a selection, Escape, blur, ...), the same holds afterwards.
\<close>

theorem active_index_invariant:
  "reachable c s \<Longrightarrow>
     (active s = -1 \<longleftrightarrow> items s = []) \<and>
     (items s \<noteq> [] \<longrightarrow> 0 \<le> active s \<and> active s < int (length (items s))) \<and>
     (active (step c s e) = -1 \<longleftrightarrow> items (step c s e) = []) \<and>
     (items (step c s e) \<noteq> [] \<longrightarrow>
        0 \<le> active (step c s e) \<and> active (step c s e) < int (length (items (step c s e))))"
proof -
  assume r: "reachable c s"
  have a: "active_ok s" using reachable_view [OF r] by (simp add: view_ok_def)
  have b: "active_ok (step c s e)"
    using reachable_view [OF reachable_step [OF r]] by (simp add: view_ok_def)
  have "(active t = -1 \<longleftrightarrow> items t = []) \<and>
     (items t \<noteq> [] \<longrightarrow> 0 \<le> active t \<and> active t < int (length (items t)))"
    if "active_ok t" for t using that by (auto simp: active_ok_def split: if_splits)
  from this [OF a] this [OF b] show ?thesis by blast
qed

theorem active_index_invariant_witness:
  "reachable Aria2 (run Aria2 '''' [Focus, Input ''a'' 1, Timeout 1, Settle 2 (listed None [''x'', ''y''])]) \<and>
   items (run Aria2 '''' [Focus, Input ''a'' 1, Timeout 1, Settle 2 (listed None [''x'', ''y''])]) \<noteq> [] \<and>
   active (run Aria2 '''' [Focus, Input ''a'' 1, Timeout 1, Settle 2 (listed None [''x'', ''y''])]) = 0 \<and>
   active (step Aria2 (run Aria2 '''' [Focus, Input ''a'' 1, Timeout 1, Settle 2 (listed None [''x'', ''y''])])
       (KeyDown ArrowUp)) = 1 \<and>
   active (step Aria2 (run Aria2 '''' [Focus, Input ''a'' 1, Timeout 1, Settle 2 (listed None [''x'', ''y''])])
       (KeyDown ArrowUp)) < int (length (items (step Aria2 (run Aria2 '''' [Focus, Input ''a'' 1, Timeout 1, Settle 2 (listed None [''x'', ''y''])])
       (KeyDown ArrowUp))))"
proof -
  let ?s = "run Aria2 '''' [Focus, Input ''a'' 1, Timeout 1, Settle 2 (listed None [''x'', ''y''])]"
  have r: "reachable Aria2 ?s" by (rule reachable_run)
  have v: "items ?s \<noteq> []" "active ?s = 0" "active (step Aria2 ?s (KeyDown ArrowUp)) = 1"
    "items (step Aria2 ?s (KeyDown ArrowUp)) \<noteq> []"
    by code_simp+
  from active_index_invariant [OF r, of "KeyDown ArrowUp"] r v show ?thesis by simp
qed

section \<open>Normalisation in the three copies\<close>

text \<open>
  Claim C3, as amended. In the two downloader copies the normalised text holds no
  backslash and no doubled slash, and normalising is idempotent. The uploader copy only
  replaces backslashes: its result holds no backslash and normalising is idempotent, but
  doubled slashes stay.
\<close>

theorem normalization_shape:
  "CHR 0x5C \<notin> set (normalize Aria2 s) \<and> \<not> has_double_slash (normalize Aria2 s) \<and>
   normalize Aria2 (normalize Aria2 s) = normalize Aria2 s \<and>
   CHR 0x5C \<notin> set (normalize HfHub s) \<and> \<not> has_double_slash (normalize HfHub s) \<and>
   normalize HfHub (normalize HfHub s) = normalize HfHub s \<and>
   CHR 0x5C \<notin> set (normalize PathUploader s) \<and>
   normalize PathUploader (normalize PathUploader s) = normalize PathUploader s"
  by (simp add: normalize_def normalizePath_def normalize_inline_no_backslash
      normalize_inline_idem replace_backslashes_no_backslash replace_backslashes_idem)
    (simp add: normalize_inline_def collapse_slashes_no_double)

theorem normalization_shape_witness:
  "normalize Aria2 (''C:'' @ [CHR 0x5C, CHR 0x5C] @ ''Users//me'') = ''C:/Users/me'' \<and>
   normalize Aria2 (normalize Aria2 (''C:'' @ [CHR 0x5C, CHR 0x5C] @ ''Users//me'')) = ''C:/Users/me'' \<and>
   normalize PathUploader (''C:'' @ [CHR 0x5C, CHR 0x5C] @ ''Users//me'') = ''C://Users//me'' \<and>
   normalize PathUploader (normalize PathUploader (''C:'' @ [CHR 0x5C, CHR 0x5C] @ ''Users//me'')) = ''C://Users//me''"
proof -
  have a: "normalize Aria2 (''C:'' @ [CHR 0x5C, CHR 0x5C] @ ''Users//me'') = ''C:/Users/me''"
    by code_simp
  have b: "normalize PathUploader (''C:'' @ [CHR 0x5C, CHR 0x5C] @ ''Users//me'') = ''C://Users//me''"
    by code_simp
  from normalization_shape [of "''C:'' @ [CHR 0x5C, CHR 0x5C] @ ''Users//me''"] a b
  show ?thesis by simp
qed

text \<open>
  The uploader copy leaves \<open>a//b\<close> as it is, so the claim that no copy yields a doubled
  slash fails there.
\<close>

theorem uploader_keeps_double_slash:
  "normalize PathUploader ''a//b'' = ''a//b'' \<and> has_double_slash (normalize PathUploader ''a//b'')"
  by code_simp

section \<open>Timers: at most one is armed\<close>

lemma timers_clear_debounce:
  "timers_ok s \<Longrightarrow> timers (clear_debounce s) = [] \<and> timers_ok (clear_debounce s)"
  by (cases "debounceTimer s"; cases "timers s")
    (auto simp: timers_ok_def clear_debounce_def filter_empty_conv)

lemma timers_arm:
  "timers_ok s \<Longrightarrow> timers s = [] \<Longrightarrow> timers_ok (arm d s) \<and> timers (arm d s) = [(next_timer s, d)]"
  by (auto simp: timers_ok_def arm_def)

lemma timers_scheduleFetch:
  "timers_ok s \<Longrightarrow>
     timers_ok (scheduleFetch c s) \<and> timers (scheduleFetch c s) = [(next_timer s, debounce_delay c)]"
proof -
  assume a: "timers_ok s"
  have n: "next_timer (clear_debounce s) = next_timer s"
    by (simp add: clear_debounce_def split: option.splits)
  from timers_clear_debounce [OF a] timers_arm [of "clear_debounce s" "debounce_delay c"] n
  show ?thesis by (simp add: scheduleFetch_def)
qed

lemma timers_ok_cong:
  "timers t = timers s \<Longrightarrow> debounceTimer t = debounceTimer s \<Longrightarrow> next_timer t = next_timer s \<Longrightarrow>
   timers_ok t = timers_ok s"
  by (simp add: timers_ok_def)

lemma timers_renderDropdown: "timers_ok (renderDropdown s) = timers_ok s"
  by (rule timers_ok_cong) (simp_all add: renderDropdown_def)

lemma timers_fetchChildren: "timers_ok (fetchChildren c w s) = timers_ok s"
  by (rule timers_ok_cong) (simp_all add: fetchChildren_def Let_def renderDropdown_def)

lemma timers_fetchChildren_settled: "timers_ok (fetchChildren_settled c val r s) = timers_ok s"
  by (rule timers_ok_cong) (simp_all add: fetchChildren_settled_def Let_def renderDropdown_def)

lemma timers_choose_item: "timers_ok s \<Longrightarrow> timers_ok (choose_item c it s)"
proof -
  assume a: "timers_ok s"
  have "timers_ok ((set_value v s)\<lparr>dest_dir := v, items := [], active := -1, display_block := False\<rparr>)"
    for v using a by (simp add: timers_ok_def set_value_def)
  then show ?thesis by (simp add: choose_item_def Let_def timers_scheduleFetch)
qed

lemma timers_key_branches: "timers_ok s \<Longrightarrow> timers_ok (key_branches c k s)"
  by (cases k) (simp_all add: timers_renderDropdown timers_choose_item Let_def, simp_all add: timers_ok_def)

lemma timers_keydown_rest: "timers_ok s \<Longrightarrow> timers_ok (keydown_rest c k s)"
  by (simp add: keydown_rest_def timers_key_branches)

lemma timers_keydown: "timers_ok s \<Longrightarrow> timers_ok (keydown c k s)"
  by (simp add: keydown_def Let_def timers_keydown_rest timers_key_branches timers_fetchChildren
      timers_clear_debounce)

lemma timers_dismiss: "timers_ok s \<Longrightarrow> timers_ok (dismiss s) \<and> timers (dismiss s) = []"
  using timers_clear_debounce [of s] by (simp add: dismiss_def timers_ok_def)

lemma timers_on_blur: "timers_ok s \<Longrightarrow> timers_ok (on_blur s) \<and> timers (on_blur s) = []"
proof -
  assume a: "timers_ok s"
  then have "timers_ok (s\<lparr>focused := False\<rparr>)" by (simp add: timers_ok_def)
  then show ?thesis unfolding on_blur_def by (rule timers_dismiss)
qed

lemma timers_on_input: "timers_ok s \<Longrightarrow> timers_ok (on_input c raw k s)"
proof -
  assume a: "timers_ok s"
  have "timers_ok t" if "timers t = timers s" "debounceTimer t = debounceTimer s"
    "next_timer t = next_timer s" for t
    using a timers_ok_cong [OF that] by simp
  then show ?thesis
    by (simp add: on_input_def Let_def timers_scheduleFetch setSelectionRange_def)
qed

lemma timers_on_focus: "timers_ok s \<Longrightarrow> timers_ok (on_focus c s)"
proof -
  assume a: "timers_ok s"
  have "timers_ok t" if "timers t = timers s" "debounceTimer t = debounceTimer s"
    "next_timer t = next_timer s" for t
    using a timers_ok_cong [OF that] by simp
  then show ?thesis
    by (simp add: on_focus_def Let_def timers_scheduleFetch)
qed

lemma timers_seed:
  "timers_ok s \<Longrightarrow> timers_ok (arm d (clear_debounce ((set_value rt s)\<lparr>dest_dir := rt\<rparr>)))"
proof -
  assume a: "timers_ok s"
  then have "timers_ok ((set_value rt s)\<lparr>dest_dir := rt\<rparr>)"
    by (simp add: timers_ok_def set_value_def)
  from timers_clear_debounce [OF this] show ?thesis by (simp add: timers_arm)
qed

lemma timers_focus_settled: "timers_ok s \<Longrightarrow> timers_ok (focus_settled c r s)"
  by (simp add: focus_settled_def timers_scheduleFetch timers_seed split: option.splits)

lemma timers_prefill_settled: "timers_ok s \<Longrightarrow> timers_ok (prefill_settled c r s)"
  by (simp add: prefill_settled_def timers_seed split: option.splits)

lemma timers_on_timeout: "timers_ok s \<Longrightarrow> timers_ok (on_timeout c t s)"
proof -
  assume a: "timers_ok s"
  have "length (filter (\<lambda>td. fst td \<noteq> t) (timers s)) \<le> 1"
    by (rule order_trans [OF length_filter_le]) (insert a, simp add: timers_ok_def)
  with a have "timers_ok (s\<lparr>timers := filter (\<lambda>td. fst td \<noteq> t) (timers s)\<rparr>)"
    by (auto simp: timers_ok_def)
  with a show ?thesis by (simp add: on_timeout_def timers_fetchChildren)
qed

lemma timers_on_settle: "timers_ok s \<Longrightarrow> timers_ok (on_settle c i r s)"
proof -
  assume a: "timers_ok s"
  then have "timers_ok (s\<lparr>inflight := take i (inflight s) @ drop (Suc i) (inflight s)\<rparr>)"
    by (simp add: timers_ok_def)
  with a show ?thesis
    by (simp add: on_settle_def Let_def timers_fetchChildren_settled timers_keydown_rest
        timers_focus_settled timers_prefill_settled split: request.splits)
qed

lemma timers_row_mousedown: "timers_ok s \<Longrightarrow> timers_ok (row_mousedown c idx s)"
  by (simp add: row_mousedown_def timers_choose_item)

lemma timers_row_mouseenter: "timers_ok s \<Longrightarrow> timers_ok (row_mouseenter idx s)"
proof -
  assume a: "timers_ok s"
  then have "timers_ok (s\<lparr>active := int idx\<rparr>)" by (simp add: timers_ok_def)
  with a show ?thesis by (simp add: row_mouseenter_def timers_renderDropdown)
qed

lemma timers_step: "timers_ok s \<Longrightarrow> timers_ok (step c s e)"
  by (cases e)
    (simp_all add: timers_on_input timers_on_focus timers_on_blur timers_dismiss timers_keydown
      timers_row_mousedown timers_row_mouseenter timers_on_timeout timers_on_settle)

lemma timers_init: "timers_ok (init c p)"
  by (simp add: init_def Let_def timers_ok_def)

lemma reachable_timers: "reachable c s \<Longrightarrow> timers_ok s"
  by (induction rule: reachable.induct) (simp_all add: timers_init timers_step)

section \<open>Debouncing\<close>

lemma reachable_typed: "reachable c (typed c)"
  by (simp add: typed_def reachable_run)

lemma reachable_shown: "reachable c (shown c)"
  unfolding shown_def by (rule reachable_step) (rule reachable_typed)

lemma next_timer_scheduleFetch: "next_timer (scheduleFetch c s) = Suc (next_timer s)"
  by (simp add: scheduleFetch_def arm_def clear_debounce_def split: option.splits)

lemma inflight_scheduleFetch: "inflight (scheduleFetch c s) = inflight s"
  by (simp add: scheduleFetch_def arm_def clear_debounce_def split: option.splits)

lemma dest_value_scheduleFetch: "dest_value (scheduleFetch c s) = dest_value s"
  by (simp add: scheduleFetch_def arm_def clear_debounce_def split: option.splits)

lemma timers_scheduleFetch_like:
  "timers_ok s \<Longrightarrow> timers t = timers s \<Longrightarrow> debounceTimer t = debounceTimer s \<Longrightarrow>
   next_timer t = next_timer s \<Longrightarrow>
   timers (scheduleFetch c t) = [(next_timer s, debounce_delay c)]"
  using timers_scheduleFetch [of t c] timers_ok_cong [of t s] by simp

lemma on_input_timers:
  "timers_ok s \<Longrightarrow> timers (on_input c raw k s) = [(next_timer s, debounce_delay c)]"
  by (simp add: on_input_def Let_def setSelectionRange_def timers_scheduleFetch_like [where s = s])

lemma on_input_next_timer: "next_timer (on_input c raw k s) = Suc (next_timer s)"
  by (simp add: on_input_def Let_def setSelectionRange_def next_timer_scheduleFetch)

lemma on_input_inflight: "inflight (on_input c raw k s) = inflight s"
  by (simp add: on_input_def Let_def setSelectionRange_def inflight_scheduleFetch)

lemma on_input_dest_value: "dest_value (on_input c raw k s) = normalize c raw"
  by (simp add: on_input_def Let_def setSelectionRange_def dest_value_scheduleFetch)

text \<open>
  Claim C5. A reachable field has at most one armed timeout. Calling \<open>scheduleFetch\<close>
  twice leaves one timeout, the second one. After two input events in a row (the first
  debounce has not elapsed), the first timeout can no longer fire, and the second, when it
  elapses, sends one lookup, for the text of the second input (none when that is blank).
\<close>

theorem debounce_single_lookup:
  assumes "reachable c s"
  shows "length (timers s) \<le> 1 \<and>
    timers (scheduleFetch c (scheduleFetch c s)) = [(Suc (next_timer s), debounce_delay c)] \<and>
    (let s2 = step c (step c s (Input r1 k1)) (Input r2 k2) in
       timers s2 = [(Suc (next_timer s), debounce_delay c)] \<and>
       step c s2 (Timeout (next_timer s)) = s2 \<and>
       timers (step c s2 (Timeout (Suc (next_timer s)))) = [] \<and>
       inflight (step c s2 (Timeout (Suc (next_timer s)))) =
         (if trim (normalize c r2) = [] then inflight s
          else inflight s @ [ChildrenReq (normalize c (trim (normalize c r2)))]))"
proof -
  have ok: "timers_ok s" using assms by (rule reachable_timers)
  then have len: "length (timers s) \<le> 1" by (simp add: timers_ok_def)
  have twice: "timers (scheduleFetch c (scheduleFetch c t)) = [(Suc (next_timer t), debounce_delay c)]"
    if "timers_ok t" for t
    using timers_scheduleFetch [OF that, of c] timers_scheduleFetch [of "scheduleFetch c t" c]
    by (simp add: next_timer_scheduleFetch)
  let ?s1 = "on_input c r1 k1 s"
  let ?s2 = "on_input c r2 k2 ?s1"
  have ok1: "timers_ok ?s1" using ok by (rule timers_on_input)
  have tm2: "timers ?s2 = [(Suc (next_timer s), debounce_delay c)]"
    using on_input_timers [OF ok1, of c r2 k2] by (simp add: on_input_next_timer)
  have dead: "on_timeout c (next_timer s) ?s2 = ?s2"
    by (simp add: on_timeout_def tm2)
  have v2: "dest_value ?s2 = normalize c r2" by (rule on_input_dest_value)
  have i2: "inflight ?s2 = inflight s" by (simp add: on_input_inflight)
  have fire: "on_timeout c (Suc (next_timer s)) ?s2 = fetchChildren c ChildrenReq (?s2\<lparr>timers := []\<rparr>)"
    by (simp add: on_timeout_def tm2)
  have f1: "timers (on_timeout c (Suc (next_timer s)) ?s2) = []"
    unfolding fire by (simp add: fetchChildren_def Let_def renderDropdown_def)
  have f2: "inflight (on_timeout c (Suc (next_timer s)) ?s2) =
         (if trim (normalize c r2) = [] then inflight s
          else inflight s @ [ChildrenReq (normalize c (trim (normalize c r2)))])"
    unfolding fire by (simp add: fetchChildren_def Let_def renderDropdown_def v2 i2)
  show ?thesis using len twice [OF ok] tm2 dead f1 f2 by (simp add: Let_def)
qed

theorem debounce_single_lookup_witness:
  "reachable Aria2 (shown Aria2) \<and>
   timers (step Aria2 (step Aria2 (shown Aria2) (Input ''a/'' 2)) (Input ''a/x'' 3)) = [(3, 180)] \<and>
   inflight (step Aria2 (step Aria2 (step Aria2 (shown Aria2) (Input ''a/'' 2)) (Input ''a/x'' 3))
       (Timeout 3)) = [PrefillRootReq, FocusRootReq, ChildrenReq ''a/x'']"
proof -
  have n: "next_timer (shown Aria2) = 2" "inflight (shown Aria2) = [PrefillRootReq, FocusRootReq]"
    "debounce_delay Aria2 = 180" "trim (normalize Aria2 ''a/x'') = ''a/x''"
    "normalize Aria2 ''a/x'' = ''a/x''"
    by code_simp+
  from debounce_single_lookup [OF reachable_shown, of Aria2 "''a/''" 2 "''a/x''" 3] n reachable_shown [of Aria2]
  show ?thesis by (simp add: Let_def numeral_3_eq_3)
qed

section \<open>Dismissal\<close>

text \<open>
  Claim C6, as amended. Blur cancels the armed timeout and resets \<open>debounceTimer\<close>,
  clears the suggestions, sets \<open>active\<close> to \<open>-1\<close> and hides the overlay. Escape, pressed
  while the overlay shows suggestions, clears the suggestions, sets \<open>active\<close> to \<open>-1\<close>
  and hides the overlay, and leaves an armed timeout armed. Neither touches a request that
  is on its way.
\<close>

theorem blur_and_escape:
  assumes "reachable c s"
  shows "timers (step c s Blur) = [] \<and> debounceTimer (step c s Blur) = None \<and>
    items (step c s Blur) = [] \<and> active (step c s Blur) = -1 \<and>
    \<not> display_block (step c s Blur) \<and> inflight (step c s Blur) = inflight s \<and>
    (display_block s \<and> items s \<noteq> [] \<longrightarrow>
       items (step c s (KeyDown Escape)) = [] \<and> active (step c s (KeyDown Escape)) = -1 \<and>
       \<not> display_block (step c s (KeyDown Escape)) \<and>
       timers (step c s (KeyDown Escape)) = timers s \<and>
       debounceTimer (step c s (KeyDown Escape)) = debounceTimer s \<and>
       inflight (step c s (KeyDown Escape)) = inflight s)"
proof -
  have ok: "timers_ok s" using assms by (rule reachable_timers)
  have b1: "timers (on_blur s) = []" using timers_on_blur [OF ok] by simp
  have b2: "debounceTimer (on_blur s) = None \<and> items (on_blur s) = [] \<and> active (on_blur s) = -1 \<and>
    \<not> display_block (on_blur s) \<and> inflight (on_blur s) = inflight s"
    by (simp add: on_blur_def dismiss_def clear_debounce_def split: option.splits)
  have e: "keydown c Escape s = s\<lparr>display_block := False, items := [], active := -1\<rparr>"
    if "display_block s" "items s \<noteq> []"
    using that by (simp add: keydown_def keydown_rest_def)
  show ?thesis using b1 b2 e by simp
qed

theorem blur_and_escape_witness:
  "reachable Aria2 (shown Aria2) \<and> display_block (shown Aria2) \<and> items (shown Aria2) \<noteq> [] \<and>
   timers (step Aria2 (shown Aria2) Blur) = [] \<and>
   items (step Aria2 (shown Aria2) Blur) = [] \<and>
   \<not> display_block (step Aria2 (shown Aria2) Blur) \<and>
   items (step Aria2 (shown Aria2) (KeyDown Escape)) = [] \<and>
   active (step Aria2 (shown Aria2) (KeyDown Escape)) = -1 \<and>
   \<not> display_block (step Aria2 (shown Aria2) (KeyDown Escape))"
proof -
  have v: "display_block (shown Aria2)" "items (shown Aria2) \<noteq> []" by code_simp+
  from blur_and_escape [OF reachable_shown, of Aria2] v reachable_shown [of Aria2]
  show ?thesis by simp
qed

text \<open>
  The overlay is shown, the user types on (a timeout is armed) and presses Escape: the
  timeout stays armed, and when it elapses the lookup goes out.
\<close>

theorem escape_keeps_timer:
  "display_block (step Aria2 (shown Aria2) (Input ''ab'' 2)) \<and>
   timers (step Aria2 (shown Aria2) (Input ''ab'' 2)) = [(2, 180)] \<and>
   timers (foldl (step Aria2) (shown Aria2) [Input ''ab'' 2, KeyDown Escape]) = [(2, 180)] \<and>
   inflight (foldl (step Aria2) (shown Aria2) [Input ''ab'' 2, KeyDown Escape, Timeout 2]) =
     [PrefillRootReq, FocusRootReq, ChildrenReq ''ab'']"
  by code_simp

section \<open>Responses\<close>

lemma fetchChildren_settled_fields:
  "items (fetchChildren_settled c val r s) = fetched_items c val r \<and>
   active (fetchChildren_settled c val r s) = (if fetched_items c val r = [] then -1 else 0) \<and>
   display_block (fetchChildren_settled c val r s) = (focused s \<and> fetched_items c val r \<noteq> [])"
  by (simp add: fetchChildren_settled_def Let_def renderDropdown_def)

text \<open>
  Claim C2, as amended. When the response to a debounced lookup arrives, its result
  always replaces \<open>items\<close> and \<open>active\<close>; the overlay is shown exactly when the field
  holds the focus at that moment and the result is not empty. So after a blur the overlay
  stays hidden, though \<open>items\<close> is filled again.
\<close>

theorem settled_lookup_gated_by_focus:
  assumes "i < length (inflight s)" and "inflight s ! i = ChildrenReq val"
  shows "items (step c s (Settle i r)) = fetched_items c val r \<and>
    active (step c s (Settle i r)) = (if fetched_items c val r = [] then -1 else 0) \<and>
    display_block (step c s (Settle i r)) = (focused s \<and> fetched_items c val r \<noteq> []) \<and>
    items (step c (step c s Blur) (Settle i r)) = fetched_items c val r \<and>
    \<not> display_block (step c (step c s Blur) (Settle i r))"
proof -
  have a: "on_settle c i r t =
      fetchChildren_settled c val r (t\<lparr>inflight := take i (inflight t) @ drop (Suc i) (inflight t)\<rparr>)"
    if "inflight t = inflight s" for t
    using assms that by (simp add: on_settle_def Let_def)
  have b: "inflight (on_blur s) = inflight s" "\<not> focused (on_blur s)"
    by (simp_all add: on_blur_def dismiss_def clear_debounce_def split: option.splits)
  show ?thesis using a [of s] a [OF b(1)] b(2) by (simp add: fetchChildren_settled_fields)
qed

theorem settled_lookup_gated_by_focus_witness:
  "2 < length (inflight (typed Aria2)) \<and> inflight (typed Aria2) ! 2 = ChildrenReq ''a'' \<and>
   items (step Aria2 (typed Aria2) (Settle 2 (listed None [''x'']))) = [\<lparr>name = ''x'', path = ''a/x''\<rparr>] \<and>
   display_block (step Aria2 (typed Aria2) (Settle 2 (listed None [''x'']))) \<and>
   items (step Aria2 (step Aria2 (typed Aria2) Blur) (Settle 2 (listed None [''x'']))) =
     [\<lparr>name = ''x'', path = ''a/x''\<rparr>] \<and>
   \<not> display_block (step Aria2 (step Aria2 (typed Aria2) Blur) (Settle 2 (listed None [''x''])))"
proof -
  have h: "2 < length (inflight (typed Aria2))" "inflight (typed Aria2) ! 2 = ChildrenReq ''a''"
    by code_simp+
  have v: "fetched_items Aria2 ''a'' (listed None [''x'']) = [\<lparr>name = ''x'', path = ''a/x''\<rparr>]"
    "focused (typed Aria2)"
    by code_simp+
  from settled_lookup_gated_by_focus [OF h, of Aria2 "listed None [''x'']"] h v
  show ?thesis by simp
qed

text \<open>
  A response that arrives after a blur fills \<open>items\<close> again; one that arrives after
  Escape (the focus stays) fills \<open>items\<close> and shows the overlay again.
\<close>

theorem lookup_after_dismissal:
  "items (foldl (step Aria2) (typed Aria2) [Blur, Settle 2 (listed None [''x''])]) =
     [\<lparr>name = ''x'', path = ''a/x''\<rparr>] \<and>
   active (foldl (step Aria2) (typed Aria2) [Blur, Settle 2 (listed None [''x''])]) = 0 \<and>
   items (foldl (step Aria2) (shown Aria2) [Input ''ab'' 2, Timeout 2, KeyDown Escape]) = [] \<and>
   items (foldl (step Aria2) (shown Aria2)
       [Input ''ab'' 2, Timeout 2, KeyDown Escape, Settle 2 (listed None [''y''])]) =
     [\<lparr>name = ''y'', path = ''ab/y''\<rparr>] \<and>
   display_block (foldl (step Aria2) (shown Aria2)
       [Input ''ab'' 2, Timeout 2, KeyDown Escape, Settle 2 (listed None [''y''])])"
  by code_simp

text \<open>
  In the uploader copy a lookup awaited by the arrow-key handler is followed by the rest of
  that handler, which moves the highlight and renders without a look at the focus: such a
  response shows the overlay even after a blur.
\<close>

lemma uploader_arrow_lookup_after_blur:
  "\<not> focused (run PathUploader []
      [Focus, Input ''a'' 1, KeyDown ArrowDown, Blur, Settle 2 (listed None [''x'', ''y''])]) \<and>
   display_block (run PathUploader []
      [Focus, Input ''a'' 1, KeyDown ArrowDown, Blur, Settle 2 (listed None [''x'', ''y''])]) \<and>
   active (run PathUploader []
      [Focus, Input ''a'' 1, KeyDown ArrowDown, Blur, Settle 2 (listed None [''x'', ''y''])]) = 1"
  by code_simp

lemma failed_lookup_items: "failed_lookup r \<Longrightarrow> fetched_items c val r = []"
  by (cases r rule: failed_lookup.cases) (auto simp: fetched_items_def)

text \<open>
  Claim C4, as amended. A lookup whose request is rejected, whose body does not parse, or
  whose parsed value has no truthy \<open>ok\<close> or no array \<open>folders\<close> leaves no suggestions,
  \<open>active = -1\<close>, the overlay hidden and the text untouched; the handler ends in a state,
  nothing is thrown on. The HTTP status is not looked at: a response with an error status
  counts as failed only through its body.
\<close>

theorem failed_lookup_is_empty:
  assumes "failed_lookup r" and "i < length (inflight s)"
    and "request_path (inflight s ! i) = Some val"
  shows "fetched_items c val r = [] \<and> items (step c s (Settle i r)) = [] \<and>
    active (step c s (Settle i r)) = -1 \<and> \<not> display_block (step c s (Settle i r)) \<and>
    dest_value (step c s (Settle i r)) = dest_value s"
proof -
  have e: "fetched_items c val r = []" using assms(1) by (rule failed_lookup_items)
  let ?t = "s\<lparr>inflight := take i (inflight s) @ drop (Suc i) (inflight s)\<rparr>"
  have f: "items (fetchChildren_settled c val r ?t) = [] \<and>
    active (fetchChildren_settled c val r ?t) = -1 \<and>
    \<not> display_block (fetchChildren_settled c val r ?t) \<and>
    dest_value (fetchChildren_settled c val r ?t) = dest_value s"
    by (simp add: fetchChildren_settled_def Let_def renderDropdown_def e)
  then have g: "keydown_rest c k (fetchChildren_settled c val r ?t) = fetchChildren_settled c val r ?t" for k
    by (simp add: keydown_rest_def)
  show ?thesis
  proof (cases "inflight s ! i")
    case (ChildrenReq v)
    then show ?thesis using assms f e by (simp add: on_settle_def Let_def)
  next
    case (ArrowReq v k)
    then show ?thesis using assms f g e by (simp add: on_settle_def Let_def)
  next
    case FocusRootReq
    then show ?thesis using assms by simp
  next
    case PrefillRootReq
    then show ?thesis using assms by simp
  qed
qed

theorem failed_lookup_is_empty_witness:
  "failed_lookup NetworkError \<and>
   2 < length (inflight (foldl (step Aria2) (shown Aria2) [Input ''ab'' 2, Timeout 2])) \<and>
   request_path (inflight (foldl (step Aria2) (shown Aria2) [Input ''ab'' 2, Timeout 2]) ! 2) =
     Some ''ab'' \<and>
   items (foldl (step Aria2) (shown Aria2) [Input ''ab'' 2, Timeout 2]) \<noteq> [] \<and>
   items (step Aria2 (foldl (step Aria2) (shown Aria2) [Input ''ab'' 2, Timeout 2])
     (Settle 2 NetworkError)) = [] \<and>
   active (step Aria2 (foldl (step Aria2) (shown Aria2) [Input ''ab'' 2, Timeout 2])
     (Settle 2 NetworkError)) = -1 \<and>
   \<not> display_block (step Aria2 (foldl (step Aria2) (shown Aria2) [Input ''ab'' 2, Timeout 2])
     (Settle 2 NetworkError))"
proof -
  let ?s = "foldl (step Aria2) (shown Aria2) [Input ''ab'' 2, Timeout 2]"
  have h: "failed_lookup NetworkError" "2 < length (inflight ?s)"
    "request_path (inflight ?s ! 2) = Some ''ab''"
    by code_simp+
  have v: "items ?s \<noteq> []" by code_simp
  from failed_lookup_is_empty [OF h, of Aria2] h v show ?thesis by simp
qed

text \<open>
  A response with status 500 whose body is a listing with \<open>ok\<close> is taken as a success:
  the suggestions are filled and shown.
\<close>

theorem error_status_with_listing:
  "items (step Aria2 (typed Aria2)
      (Settle 2 (Http 500 (Data \<lparr>ok = True, root = None, folders = Some [''x'']\<rparr>)))) =
     [\<lparr>name = ''x'', path = ''a/x''\<rparr>] \<and>
   display_block (step Aria2 (typed Aria2)
      (Settle 2 (Http 500 (Data \<lparr>ok = True, root = None, folders = Some [''x'']\<rparr>))))"
  by code_simp

section \<open>The caret\<close>

text \<open>
  Claim C7. When an input event finds a text that normalisation changes (the caret within
  the text, as a browser has it), the caret afterwards is the caret before plus the change
  in length, and not below \<open>0\<close>; the field and the property hold the normalised text.
\<close>

theorem caret_after_normalization:
  assumes "k \<le> length raw" and "normalize c raw \<noteq> raw"
  shows "selectionStart (step c s (Input raw k)) =
      max 0 (int k + (int (length (normalize c raw)) - int (length raw))) \<and>
    dest_value (step c s (Input raw k)) = normalize c raw \<and>
    dest_dir (step c s (Input raw k)) = normalize c raw"
proof -
  have "int k + (int (length (normalize c raw)) - int (length raw)) \<le> int (length (normalize c raw))"
    using assms(1) by simp
  then have m: "min (max 0 (int k + (int (length (normalize c raw)) - int (length raw))))
      (int (length (normalize c raw))) =
    max 0 (int k + (int (length (normalize c raw)) - int (length raw)))"
    by simp
  have p: "selectionStart (scheduleFetch c t) = selectionStart t \<and> dest_dir (scheduleFetch c t) = dest_dir t" for t
    by (simp add: scheduleFetch_def arm_def clear_debounce_def split: option.splits)
  show ?thesis
    using assms(2) m
    by (simp add: on_input_def Let_def setSelectionRange_def p dest_value_scheduleFetch)
qed

theorem caret_after_normalization_witness:
  "3 \<le> length ''a//b'' \<and> normalize Aria2 ''a//b'' \<noteq> ''a//b'' \<and>
   dest_value (step Aria2 (init Aria2 []) (Input ''a//b'' 3)) = ''a/b'' \<and>
   selectionStart (step Aria2 (init Aria2 []) (Input ''a//b'' 3)) = 2 \<and>
   selectionStart (step HfHub (init HfHub []) (Input ''//'' 0)) = 0 \<and>
   selectionStart (step PathUploader (init PathUploader []) (Input [CHR ''a'', CHR 0x5C, CHR ''b''] 2)) = 2"
proof -
  have h: "3 \<le> length ''a//b''" "normalize Aria2 ''a//b'' \<noteq> ''a//b''"
    "0 \<le> length ''//''" "normalize HfHub ''//'' \<noteq> ''//''"
    "2 \<le> length [CHR ''a'', CHR 0x5C, CHR ''b'']"
    "normalize PathUploader [CHR ''a'', CHR 0x5C, CHR ''b''] \<noteq> [CHR ''a'', CHR 0x5C, CHR ''b'']"
    by code_simp+
  have v: "normalize Aria2 ''a//b'' = ''a/b''" "normalize HfHub ''//'' = ''/''"
    "normalize PathUploader [CHR ''a'', CHR 0x5C, CHR ''b''] = ''a/b''"
    by code_simp+
  from caret_after_normalization [OF h(1,2), of "init Aria2 []"]
    caret_after_normalization [OF h(3,4), of "init HfHub []"]
    caret_after_normalization [OF h(5,6), of "init PathUploader []"] h(1,2) v
  show ?thesis by simp
qed

section \<open>Focus\<close>





section \<open>Suggested paths\<close>

lemma no_slash_no_double: "CHR ''/'' \<notin> set s \<Longrightarrow> \<not> has_double_slash s"
  by (induction s rule: has_double_slash.induct) auto

lemma collapse_slashes_join:
  "\<not> has_double_slash base \<Longrightarrow> CHR ''/'' \<notin> set seg \<Longrightarrow> seg \<noteq> [] \<Longrightarrow>
   collapse_slashes (base @ CHR ''/'' # seg) =
     (if base \<noteq> [] \<and> last base = CHR ''/'' then base @ seg else base @ CHR ''/'' # seg)"
proof (induction base rule: collapse_slashes.induct)
  case (1 a b cs)
  then show ?case by auto
qed (cases seg; auto simp: collapse_slashes_id no_slash_no_double)+

lemma joinPath_agrees:
  assumes "base \<noteq> []" and "normalize_inline base = base" and "seg \<noteq> []"
    and "CHR ''/'' \<notin> set seg" and "CHR 0x5C \<notin> set seg"
  shows "joinPath base seg = normalize_inline (base @ ''/'' @ seg)"
proof -
  have nb: "CHR 0x5C \<notin> set base" using normalize_inline_no_backslash [of base] assms(2) by simp
  have nd: "\<not> has_double_slash base"
    using collapse_slashes_no_double [of "replace_backslashes base"] assms(2)
    by (simp add: normalize_inline_def)
  have "replace_backslashes (base @ ''/'' @ seg) = base @ ''/'' @ seg"
    by (rule replace_backslashes_id) (insert nb assms(5), simp)
  then have "normalize_inline (base @ ''/'' @ seg) = collapse_slashes (base @ CHR ''/'' # seg)"
    by (simp add: normalize_inline_def)
  also have "\<dots> = (if last base = CHR ''/'' then base @ seg else base @ CHR ''/'' # seg)"
    using collapse_slashes_join [OF nd assms(4) assms(3)] assms(1) by simp
  finally show ?thesis
    using assms(1,3) nb assms(5)
    by (simp add: joinPath_def normalizePath_def replace_backslashes_id)
qed

lemma js_rem_one: "0 < n \<Longrightarrow> js_rem 1 n = (if n = 1 then 0 else 1)"
  by (simp add: js_rem_def)

lemma js_rem_last: "0 < n \<Longrightarrow> js_rem (0 - 1 + n) n = n - 1"
  by (cases "n = 1") (simp_all add: js_rem_def zmod_minus1)

text \<open>
  Claim C8, as amended. When a debounced lookup for \<open>val\<close> succeeds, the suggestions are
  the response's folders in the server's order, each with its name and the path built
  from the parent (the response's root if it has a non-empty one, else \<open>val\<close>), and
  \<open>active\<close> is \<open>0\<close> when there are any, \<open>-1\<close> otherwise. In the two downloader copies the
  path is \<open>parent + "/" + name\<close>, normalised. In the uploader copy it is
  \<open>joinPath(parent, name)\<close>, which is the same path whenever the parent is normalised and
  not empty and the name is not empty and holds no separator. A lookup that the uploader's
  arrow-key handler awaited gives the same suggestions, and the key then moves \<open>active\<close>:
  ArrowDown to \<open>1\<close> (to \<open>0\<close> with one suggestion), ArrowUp to the last one.
\<close>

theorem successful_lookup_entries:
  assumes "ok d" and "folders d = Some fs" and "i < length (inflight s)"
  shows "(let parent = (case root d of None \<Rightarrow> val | Some r \<Rightarrow> if r = [] then val else r);
        entries =
          (if c = PathUploader then map (\<lambda>f. \<lparr>name = f, path = joinPath parent f\<rparr>) fs
           else map (\<lambda>f. \<lparr>name = f, path = normalize_inline (parent @ ''/'' @ f)\<rparr>) fs);
        s' = step c s (Settle i (Http status (Data d))) in
      (inflight s ! i = ChildrenReq val \<longrightarrow>
         items s' = entries \<and> active s' = (if fs = [] then -1 else 0)) \<and>
      (inflight s ! i = ArrowReq val ArrowDown \<longrightarrow>
         items s' = entries \<and>
         active s' = (if length fs \<le> 1 then int (length fs) - 1 else 1)) \<and>
      (inflight s ! i = ArrowReq val ArrowUp \<longrightarrow>
         items s' = entries \<and> active s' = int (length fs) - 1)) \<and>
    (base \<noteq> [] \<and> normalize_inline base = base \<and> f \<noteq> [] \<and> CHR ''/'' \<notin> set f \<and>
     CHR 0x5C \<notin> set f \<longrightarrow>
       joinPath base f = normalize_inline (base @ ''/'' @ f))"
proof -
  define entries where "entries =
    (if c = PathUploader
     then map (\<lambda>f. \<lparr>name = f,
        path = joinPath (case root d of None \<Rightarrow> val | Some r \<Rightarrow> if r = [] then val else r) f\<rparr>) fs
     else map (\<lambda>f. \<lparr>name = f,
        path = normalize_inline
          ((case root d of None \<Rightarrow> val | Some r \<Rightarrow> if r = [] then val else r) @ ''/'' @ f)\<rparr>) fs)"
  define t where "t = fetchChildren_settled c val (Http status (Data d))
    (s\<lparr>inflight := take i (inflight s) @ drop (Suc i) (inflight s)\<rparr>)"
  have fi: "fetched_items c val (Http status (Data d)) = entries"
    using assms(1,2) by (simp add: fetched_items_def child_path_def root_or_def entries_def)
  have len: "length entries = length fs" by (simp add: entries_def)
  then have e: "entries = [] \<longleftrightarrow> fs = []" by (metis length_0_conv)
  have t: "items t = entries" "active t = (if fs = [] then -1 else 0)"
    using e by (simp_all add: t_def fetchChildren_settled_fields fi)
  have rd: "items (renderDropdown u) = items u \<and>
      (items u \<noteq> [] \<longrightarrow> active (renderDropdown u) = active u)" for u
    by (simp add: renderDropdown_def)
  have down: "items (keydown_rest c ArrowDown t) = entries \<and>
      active (keydown_rest c ArrowDown t) = (if length fs \<le> 1 then int (length fs) - 1 else 1)"
  proof (cases "fs = []")
    case True
    then show ?thesis using t e by (simp add: keydown_rest_def)
  next
    case False
    then have ne: "entries \<noteq> []" using e by simp
    have p: "0 < int (length fs)" using False by simp
    have k: "keydown_rest c ArrowDown t = renderDropdown (t\<lparr>active := js_rem 1 (int (length fs))\<rparr>)"
      using ne False t len by (simp add: keydown_rest_def)
    have "items (t\<lparr>active := js_rem 1 (int (length fs))\<rparr>) = entries" using t by simp
    then show ?thesis
      unfolding k using rd [of "t\<lparr>active := js_rem 1 (int (length fs))\<rparr>"] ne False
        js_rem_one [OF p]
      by (cases fs) auto
  qed
  have up: "items (keydown_rest c ArrowUp t) = entries \<and>
      active (keydown_rest c ArrowUp t) = int (length fs) - 1"
  proof (cases "fs = []")
    case True
    then show ?thesis using t e by (simp add: keydown_rest_def)
  next
    case False
    then have ne: "entries \<noteq> []" using e by simp
    have p: "0 < int (length fs)" using False by simp
    let ?u = "t\<lparr>active := js_rem (0 - 1 + int (length fs)) (int (length fs))\<rparr>"
    have k: "keydown_rest c ArrowUp t = renderDropdown ?u"
      using ne False t len by (simp add: keydown_rest_def)
    have "items ?u = entries" "active ?u = int (length fs) - 1"
      using t js_rem_last [OF p] by simp_all
    then show ?thesis unfolding k using rd [of ?u] ne by simp
  qed
  have a: "inflight s ! i = ChildrenReq val \<Longrightarrow> step c s (Settle i (Http status (Data d))) = t"
    using assms(3) by (simp add: on_settle_def Let_def t_def)
  have b: "inflight s ! i = ArrowReq val k \<Longrightarrow>
      step c s (Settle i (Http status (Data d))) = keydown_rest c k t" for k
    using assms(3) by (simp add: on_settle_def Let_def t_def)
  have j: "base \<noteq> [] \<and> normalize_inline base = base \<and> f \<noteq> [] \<and> CHR ''/'' \<notin> set f \<and>
     CHR 0x5C \<notin> set f \<longrightarrow>
       joinPath base f = normalize_inline (base @ ''/'' @ f)"
    using joinPath_agrees [of base f] by simp
  have main: "(inflight s ! i = ChildrenReq val \<longrightarrow>
         items (step c s (Settle i (Http status (Data d)))) = entries \<and>
         active (step c s (Settle i (Http status (Data d)))) = (if fs = [] then -1 else 0)) \<and>
      (inflight s ! i = ArrowReq val ArrowDown \<longrightarrow>
         items (step c s (Settle i (Http status (Data d)))) = entries \<and>
         active (step c s (Settle i (Http status (Data d)))) =
           (if length fs \<le> 1 then int (length fs) - 1 else 1)) \<and>
      (inflight s ! i = ArrowReq val ArrowUp \<longrightarrow>
         items (step c s (Settle i (Http status (Data d)))) = entries \<and>
         active (step c s (Settle i (Http status (Data d)))) = int (length fs) - 1)"
    using a b [of ArrowDown] b [of ArrowUp] t down up by metis
  show ?thesis
    unfolding Let_def using main j unfolding entries_def by (rule conjI)
qed

theorem successful_lookup_entries_witness:
  "dest_value (run HfHub [] [Focus, Input users_me 11, Timeout 1]) = ''C:/Users/me'' \<and>
   items (step HfHub (run HfHub [] [Focus, Input users_me 11, Timeout 1])
       (Settle 2 (listed None [''Downloads'', ''Desktop'']))) =
     [\<lparr>name = ''Downloads'', path = ''C:/Users/me/Downloads''\<rparr>,
      \<lparr>name = ''Desktop'', path = ''C:/Users/me/Desktop''\<rparr>] \<and>
   active (step HfHub (run HfHub [] [Focus, Input users_me 11, Timeout 1])
       (Settle 2 (listed None [''Downloads'', ''Desktop'']))) = 0 \<and>
   items (step Aria2 (typed Aria2) (Settle 2 (listed (Some ''D:/data'') [''x'']))) =
     [\<lparr>name = ''x'', path = ''D:/data/x''\<rparr>] \<and>
   items (step Aria2 (typed Aria2) (Settle 2 (listed (Some []) [''x'']))) =
     [\<lparr>name = ''x'', path = ''a/x''\<rparr>] \<and>
   items (step PathUploader (typed PathUploader) (Settle 2 (listed (Some ''/'') [''usr'']))) =
     [\<lparr>name = ''usr'', path = ''/usr''\<rparr>] \<and>
   items (step PathUploader (arrow_pending ArrowUp) (Settle 2 (listed None [''x'', ''y'', ''z'']))) =
     [\<lparr>name = ''x'', path = ''a/x''\<rparr>, \<lparr>name = ''y'', path = ''a/y''\<rparr>,
      \<lparr>name = ''z'', path = ''a/z''\<rparr>] \<and>
   active (step PathUploader (arrow_pending ArrowUp) (Settle 2 (listed None [''x'', ''y'', ''z'']))) = 2 \<and>
   active (step PathUploader (arrow_pending ArrowDown) (Settle 2 (listed None [''x'', ''y'', ''z'']))) = 1 \<and>
   active (step PathUploader (arrow_pending ArrowDown) (Settle 2 (listed None [''x'']))) = 0"
proof -
  let ?sh = "run HfHub [] [Focus, Input users_me 11, Timeout 1]"
  have h: "2 < length (inflight ?sh)" "inflight ?sh ! 2 = ChildrenReq ''C:/Users/me''"
    "2 < length (inflight (typed Aria2))" "inflight (typed Aria2) ! 2 = ChildrenReq ''a''"
    "2 < length (inflight (arrow_pending ArrowUp))"
    "inflight (arrow_pending ArrowUp) ! 2 = ArrowReq ''a'' ArrowUp"
    "2 < length (inflight (arrow_pending ArrowDown))"
    "inflight (arrow_pending ArrowDown) ! 2 = ArrowReq ''a'' ArrowDown"
    by code_simp+
  have v: "dest_value ?sh = ''C:/Users/me''"
    "normalize_inline (''C:/Users/me'' @ ''/'' @ ''Downloads'') = ''C:/Users/me/Downloads''"
    "normalize_inline (''C:/Users/me'' @ ''/'' @ ''Desktop'') = ''C:/Users/me/Desktop''"
    "normalize_inline (''D:/data'' @ ''/'' @ ''x'') = ''D:/data/x''"
    "joinPath ''a'' ''x'' = ''a/x''" "joinPath ''a'' ''y'' = ''a/y''" "joinPath ''a'' ''z'' = ''a/z''"
    by code_simp+
  have w: "items (step Aria2 (typed Aria2) (Settle 2 (listed (Some []) [''x'']))) =
      [\<lparr>name = ''x'', path = ''a/x''\<rparr>]"
    "items (step PathUploader (typed PathUploader) (Settle 2 (listed (Some ''/'') [''usr'']))) =
      [\<lparr>name = ''usr'', path = ''/usr''\<rparr>]"
    by code_simp+
  have a: "items (step HfHub ?sh (Settle 2 (listed None [''Downloads'', ''Desktop'']))) =
      [\<lparr>name = ''Downloads'', path = ''C:/Users/me/Downloads''\<rparr>,
       \<lparr>name = ''Desktop'', path = ''C:/Users/me/Desktop''\<rparr>] \<and>
    active (step HfHub ?sh (Settle 2 (listed None [''Downloads'', ''Desktop'']))) = 0"
    using successful_lookup_entries [of "\<lparr>ok = True, root = None, folders = Some [''Downloads'', ''Desktop'']\<rparr>"
        "[''Downloads'', ''Desktop'']" 2 ?sh "''C:/Users/me''" HfHub 200] h(1,2) v
    by (simp add: Let_def listed_def)
  have b: "items (step Aria2 (typed Aria2) (Settle 2 (listed (Some ''D:/data'') [''x'']))) =
      [\<lparr>name = ''x'', path = ''D:/data/x''\<rparr>]"
    using successful_lookup_entries [of "\<lparr>ok = True, root = Some ''D:/data'', folders = Some [''x'']\<rparr>"
        "[''x'']" 2 "typed Aria2" "''a''" Aria2 200] h(3,4) v
    by (simp add: Let_def listed_def)
  have c: "items (step PathUploader (arrow_pending ArrowUp) (Settle 2 (listed None [''x'', ''y'', ''z'']))) =
      [\<lparr>name = ''x'', path = ''a/x''\<rparr>, \<lparr>name = ''y'', path = ''a/y''\<rparr>,
       \<lparr>name = ''z'', path = ''a/z''\<rparr>] \<and>
    active (step PathUploader (arrow_pending ArrowUp) (Settle 2 (listed None [''x'', ''y'', ''z'']))) = 2"
    using successful_lookup_entries [of "\<lparr>ok = True, root = None, folders = Some [''x'', ''y'', ''z'']\<rparr>"
        "[''x'', ''y'', ''z'']" 2 "arrow_pending ArrowUp" "''a''" PathUploader 200] h(5,6) v
    by (simp add: Let_def listed_def)
  have d: "active (step PathUploader (arrow_pending ArrowDown) (Settle 2 (listed None [''x'', ''y'', ''z'']))) = 1"
    using successful_lookup_entries [of "\<lparr>ok = True, root = None, folders = Some [''x'', ''y'', ''z'']\<rparr>"
        "[''x'', ''y'', ''z'']" 2 "arrow_pending ArrowDown" "''a''" PathUploader 200] h(7,8)
    by (simp add: Let_def listed_def)
  have e: "active (step PathUploader (arrow_pending ArrowDown) (Settle 2 (listed None [''x'']))) = 0"
    using successful_lookup_entries [of "\<lparr>ok = True, root = None, folders = Some [''x'']\<rparr>"
        "[''x'']" 2 "arrow_pending ArrowDown" "''a''" PathUploader 200] h(7,8)
    by (simp add: Let_def listed_def)
  show ?thesis using v(1) a b c d e w by blast
qed

text \<open>
  In the uploader copy a root with a doubled slash and a trailing slash gives a path that
  is neither the normalised concatenation nor the concatenation with backslashes replaced;
  and after a lookup awaited by ArrowDown the list is not empty and \<open>active\<close> is \<open>1\<close>.
\<close>

theorem uploader_join_differs:
  "items (step PathUploader (typed PathUploader) (Settle 2 (listed (Some ''//nas/share/'') [''x'']))) =
     [\<lparr>name = ''x'', path = ''//nas/share/x''\<rparr>] \<and>
   normalize_inline (''//nas/share/'' @ ''/'' @ ''x'') = ''/nas/share/x'' \<and>
   normalizePath (''//nas/share/'' @ ''/'' @ ''x'') = ''//nas/share//x'' \<and>
   items (step PathUploader (arrow_pending ArrowDown) (Settle 2 (listed None [''x'', ''y'']))) =
     [\<lparr>name = ''x'', path = ''a/x''\<rparr>, \<lparr>name = ''y'', path = ''a/y''\<rparr>] \<and>
   active (step PathUploader (arrow_pending ArrowDown) (Settle 2 (listed None [''x'', ''y'']))) = 1"
  by code_simp

section \<open>Enter in the uploader\<close>





end
